theory Spec2Isabelle
  imports Main
begin

section \<open>Terms and object identity\<close>

text \<open>
  The engine of \<^verbatim>\<open>src/main.ts\<close> compares objects with \<^verbatim>\<open>===\<close> and \<^verbatim>\<open>!==\<close>
  only, never by name. Every object that is compared therefore carries its identity: the
  address it was allocated at. Two values of the model denote the same object exactly when
  they are equal. The display name is kept beside the address, as in the classes.

  An \<^verbatim>\<open>Application\<close> is an object too: \<^verbatim>\<open>Substitution.apply\<close> builds a new one
  each time it rebuilds a compound term, and the first test of \<^verbatim>\<open>Constraint.unify\<close>
  (\<^verbatim>\<open>left === right\<close>) tells a rebuilt term from the original. So an application
  carries its address as well, and every \<^verbatim>\<open>new\<close> of a \<^verbatim>\<open>Variable\<close> or an
  \<^verbatim>\<open>Application\<close> takes the next free address from the heap, which is threaded through
  every function that allocates.
\<close>

type_synonym ident = nat

type_synonym heap = nat

datatype Functor = Functor ident string

datatype Constant = Constant ident string

datatype Variable = Variable ident string

datatype Predicate = Predicate ident string

datatype Term = Var Variable | Con Constant | Application ident Functor "Term list"

fun Variable_name :: "Variable \<Rightarrow> string" where
  "Variable_name (Variable a name) = name"


text \<open>\<^verbatim>\<open>new Variable(name)\<close> and \<^verbatim>\<open>new Application(functor, terms)\<close>: the object
  gets the next free address.\<close>

definition newVariable :: "string \<Rightarrow> heap \<Rightarrow> Variable \<times> heap" where
  "newVariable name h = (Variable h name, Suc h)"

definition newApplication :: "Functor \<Rightarrow> Term list \<Rightarrow> heap \<Rightarrow> Term \<times> heap" where
  "newApplication f ts h = (Application h f ts, Suc h)"

text \<open>A JavaScript \<^verbatim>\<open>Set\<close> keeps its elements in insertion order and ignores an
  element it already holds (by identity): a list without repetitions.\<close>

definition Set_add :: "'a \<Rightarrow> 'a list \<Rightarrow> 'a list" where
  "Set_add x xs = (if x \<in> set xs then xs else xs @ [x])"

definition Set_addAll :: "'a list \<Rightarrow> 'a list \<Rightarrow> 'a list" where
  "Set_addAll variables xs = foldl (\<lambda>acc x. Set_add x acc) variables xs"

fun listVariables :: "Term \<Rightarrow> Variable list" where
  "listVariables (Var v) = [v]"
| "listVariables (Con c) = []"
| "listVariables (Application a f ts) =
     foldl (\<lambda>variables t. Set_addAll variables (listVariables t)) [] ts"

section \<open>Substitutions\<close>

datatype Substitution = Substitution Variable Term

fun Substitution_variable :: "Substitution \<Rightarrow> Variable" where
  "Substitution_variable (Substitution v t) = v"

fun Substitution_term :: "Substitution \<Rightarrow> Term" where
  "Substitution_term (Substitution v t) = t"

text \<open>\<^verbatim>\<open>Substitution.apply\<close>. The arguments of an application are rebuilt from left to
  right (\<^verbatim>\<open>Array.map\<close>), then the new application is allocated.\<close>

fun Substitution_apply :: "Substitution \<Rightarrow> Term \<Rightarrow> heap \<Rightarrow> Term \<times> heap"
  and Substitution_apply_terms :: "Substitution \<Rightarrow> Term list \<Rightarrow> heap \<Rightarrow> Term list \<times> heap"
where
  "Substitution_apply s (Var v) h =
     (if v = Substitution_variable s then (Substitution_term s, h) else (Var v, h))"
| "Substitution_apply s (Con c) h = (Con c, h)"
| "Substitution_apply s (Application a f ts) h =
     (case Substitution_apply_terms s ts h of (ts', h') \<Rightarrow> newApplication f ts' h')"
| "Substitution_apply_terms s [] h = ([], h)"
| "Substitution_apply_terms s (t # ts) h =
     (case Substitution_apply s t h of (t', h1) \<Rightarrow>
        (case Substitution_apply_terms s ts h1 of (ts', h2) \<Rightarrow> (t' # ts', h2)))"

text \<open>\<^verbatim>\<open>Substitution.applyAll\<close>: \<^verbatim>\<open>reduce\<close> over the list, from the left.\<close>

fun applyAll :: "Term \<Rightarrow> Substitution list \<Rightarrow> heap \<Rightarrow> Term \<times> heap" where
  "applyAll t [] h = (t, h)"
| "applyAll t (s # ss) h =
     (case Substitution_apply s t h of (t', h') \<Rightarrow> applyAll t' ss h')"

text \<open>\<^verbatim>\<open>terms.map(term => Substitution.applyAll(term, substitutions))\<close>.\<close>

fun applyAll_terms :: "Term list \<Rightarrow> Substitution list \<Rightarrow> heap \<Rightarrow> Term list \<times> heap" where
  "applyAll_terms [] ss h = ([], h)"
| "applyAll_terms (t # ts) ss h =
     (case applyAll t ss h of (t', h1) \<Rightarrow>
        (case applyAll_terms ts ss h1 of (ts', h2) \<Rightarrow> (t' # ts', h2)))"

section \<open>Unification\<close>

datatype Constraint = Constraint Term Term

fun isVariable :: "Term \<Rightarrow> bool" where
  "isVariable (Var v) = True"
| "isVariable t = False"

fun isConstant :: "Term \<Rightarrow> bool" where
  "isConstant (Con c) = True"
| "isConstant t = False"

text \<open>The binding built when one side is a variable: the left one wins.\<close>

fun makeSubstitution :: "Term \<Rightarrow> Term \<Rightarrow> Substitution option" where
  "makeSubstitution (Var v) right = Some (Substitution v right)"
| "makeSubstitution left (Var v) = Some (Substitution v left)"
| "makeSubstitution left right = None"

text \<open>\<^verbatim>\<open>constraints.map(c => new Constraint(s.apply(c.left), s.apply(c.right)))\<close>.\<close>

fun applyConstraints :: "Substitution \<Rightarrow> Constraint list \<Rightarrow> heap \<Rightarrow> Constraint list \<times> heap" where
  "applyConstraints s [] h = ([], h)"
| "applyConstraints s (Constraint l r # cs) h =
     (case Substitution_apply s l h of (l', h1) \<Rightarrow>
        (case Substitution_apply s r h1 of (r', h2) \<Rightarrow>
           (case applyConstraints s cs h2 of (cs', h3) \<Rightarrow> (Constraint l' r' # cs', h3))))"

text \<open>The loop that pairs the arguments of two applications of the same length.\<close>

fun zipConstraints :: "Term list \<Rightarrow> Term list \<Rightarrow> Constraint list" where
  "zipConstraints (l # ls) (r # rs) = Constraint l r # zipConstraints ls rs"
| "zipConstraints ls rs = []"

text \<open>\<^verbatim>\<open>Constraint.unify\<close>. The source returns \<^verbatim>\<open>null\<close> on failure: the inner option.
  Without an occurs check the recursion need not end (it ends in a stack overflow); not
  returning is the outer \<open>None\<close>. The heap is returned with the result, since rewriting
  the remaining constraints allocates. The test \<^verbatim>\<open>left === right\<close> is equality of the
  two values, addresses included. The branches that are \<open>None\<close> outright (no binding
  although one side is a variable; a side that is no application after the variable and
  constant tests) stand for paths the source cannot take.\<close>

partial_function (option) unify ::
  "Constraint list \<Rightarrow> heap \<Rightarrow> (Substitution list option \<times> heap) option"
where
  "unify constraints h =
     (case constraints of
        [] \<Rightarrow> Some (Some [], h)
      | Constraint left right # rest \<Rightarrow>
          if left = right then unify rest h
          else if isVariable left \<or> isVariable right then
            (case makeSubstitution left right of
               None \<Rightarrow> None
             | Some substitution \<Rightarrow>
                 (case applyConstraints substitution rest h of (rest', h') \<Rightarrow>
                    Option.bind (unify rest' h') (\<lambda>(result, h'').
                      (case result of
                         None \<Rightarrow> Some (None, h'')
                       | Some substitutions \<Rightarrow>
                           Some (Some (substitution # substitutions), h'')))))
          else if isConstant left \<or> isConstant right then
            (if left = right then Some (Some [], h) else Some (None, h))
          else
            (case left of
               Application la lf lts \<Rightarrow>
                 (case right of
                    Application ra rf rts \<Rightarrow>
                      if lf \<noteq> rf then Some (None, h)
                      else if length lts \<noteq> length rts then Some (None, h)
                      else unify (zipConstraints lts rts @ rest) h
                  | _ \<Rightarrow> None)
             | _ \<Rightarrow> None))"

section \<open>Clauses and standardizing apart\<close>

datatype Fact = Fact Predicate "Term list"

datatype Goal = Goal Predicate "Term list"

text \<open>A rule: the head \<^verbatim>\<open>left\<close> and the body \<^verbatim>\<open>right\<close>, each atom an object
  \<^verbatim>\<open>{ predicate, terms }\<close>.\<close>

type_synonym Atom = "Predicate \<times> Term list"

datatype Rule = Rule Atom "Atom list"

text \<open>The fields of a goal, of a fact and of a rule (\<^verbatim>\<open>left.predicate\<close>,
  \<^verbatim>\<open>left.terms\<close>, \<^verbatim>\<open>right\<close>).\<close>

fun Goal_predicate :: "Goal \<Rightarrow> Predicate" where
  "Goal_predicate (Goal p ts) = p"


fun Fact_predicate :: "Fact \<Rightarrow> Predicate" where
  "Fact_predicate (Fact p ts) = p"

fun Fact_terms :: "Fact \<Rightarrow> Term list" where
  "Fact_terms (Fact p ts) = ts"

fun Rule_predicate :: "Rule \<Rightarrow> Predicate" where
  "Rule_predicate (Rule (p, ts) right) = p"

fun Rule_terms :: "Rule \<Rightarrow> Term list" where
  "Rule_terms (Rule (p, ts) right) = ts"


text \<open>The variables of a list of terms, gathered into one \<^verbatim>\<open>Set\<close>
  (\<^verbatim>\<open>terms.forEach(term => listVariables(term).forEach(v => variables.add(v)))\<close>).\<close>

definition collectVariables :: "Variable list \<Rightarrow> Term list \<Rightarrow> Variable list" where
  "collectVariables variables ts =
     foldl (\<lambda>acc t. Set_addAll acc (listVariables t)) variables ts"



text \<open>\<^verbatim>\<open>Array.from(variables).map(v => new Substitution(v, new Variable(v.name)))\<close>.\<close>

fun freshSubstitutions :: "Variable list \<Rightarrow> heap \<Rightarrow> Substitution list \<times> heap" where
  "freshSubstitutions [] h = ([], h)"
| "freshSubstitutions (v # vs) h =
     (case newVariable (Variable_name v) h of (v', h1) \<Rightarrow>
        (case freshSubstitutions vs h1 of (ss, h2) \<Rightarrow> (Substitution v (Var v') # ss, h2)))"

fun Fact_clone :: "Fact \<Rightarrow> heap \<Rightarrow> Fact \<times> heap" where
  "Fact_clone (Fact predicate ts) h =
     (case freshSubstitutions (collectVariables [] ts) h of (substitutions, h1) \<Rightarrow>
        (case applyAll_terms ts substitutions h1 of (ts', h2) \<Rightarrow> (Fact predicate ts', h2)))"

fun applyAll_atoms :: "Atom list \<Rightarrow> Substitution list \<Rightarrow> heap \<Rightarrow> Atom list \<times> heap" where
  "applyAll_atoms [] ss h = ([], h)"
| "applyAll_atoms ((predicate, ts) # atoms) ss h =
     (case applyAll_terms ts ss h of (ts', h1) \<Rightarrow>
        (case applyAll_atoms atoms ss h1 of (atoms', h2) \<Rightarrow> ((predicate, ts') # atoms', h2)))"

fun Rule_clone :: "Rule \<Rightarrow> heap \<Rightarrow> Rule \<times> heap" where
  "Rule_clone (Rule (predicate, ts) right) h =
     (case freshSubstitutions
             (foldl (\<lambda>acc (p, ts'). collectVariables acc ts') (collectVariables [] ts) right) h
      of (substitutions, h1) \<Rightarrow>
        (case applyAll_terms ts substitutions h1 of (ts', h2) \<Rightarrow>
           (case applyAll_atoms right substitutions h2 of (right', h3) \<Rightarrow>
              (Rule (predicate, ts') right', h3))))"

section \<open>The resolution engine\<close>

datatype Space = Space "Fact list" "Rule list"

type_synonym Item = "Goal list \<times> Substitution list"

text \<open>A JavaScript \<^verbatim>\<open>Map\<close>: the entries in insertion order, a key set again keeps its
  place.\<close>

fun Map_set :: "'k \<Rightarrow> 'v \<Rightarrow> ('k \<times> 'v) list \<Rightarrow> ('k \<times> 'v) list" where
  "Map_set k v [] = [(k, v)]"
| "Map_set k v ((k', v') # m) = (if k = k' then (k, v) # m else (k', v') # Map_set k v m)"

text \<open>The result of one pull: \<^verbatim>\<open>{ done, value }\<close>.\<close>

datatype IteratorResult = IteratorResult bool "(Variable \<times> Term) list"

text \<open>The object \<^verbatim>\<open>query\<close> returns: its \<^verbatim>\<open>next\<close> closes over the space, the queue
  and the query variables; only the queue changes between pulls.\<close>

datatype Iterator = Iterator Space "Item list" "Variable list"

fun goalVariables :: "Variable list \<Rightarrow> Goal list \<Rightarrow> Variable list" where
  "goalVariables freeVariables [] = freeVariables"
| "goalVariables freeVariables (Goal predicate ts # goals) =
     goalVariables (collectVariables freeVariables ts) goals"

definition Space_query :: "Space \<Rightarrow> Goal list \<Rightarrow> Iterator" where
  "Space_query space goals = Iterator space [(goals, [])] (goalVariables [] goals)"

text \<open>\<^verbatim>\<open>freeVariables.forEach(v => mapping.set(v, Substitution.applyAll(v, substitutions)))\<close>.\<close>

fun bindVariables ::
  "Variable list \<Rightarrow> Substitution list \<Rightarrow> (Variable \<times> Term) list \<Rightarrow> heap
     \<Rightarrow> (Variable \<times> Term) list \<times> heap"
where
  "bindVariables [] ss m h = (m, h)"
| "bindVariables (v # vs) ss m h =
     (case applyAll (Var v) ss h of (t, h1) \<Rightarrow> bindVariables vs ss (Map_set v t m) h1)"

definition isValid :: "(Variable \<times> Term) list \<Rightarrow> bool" where
  "isValid m = list_all (\<lambda>(v, t). \<not> length (listVariables t) > 0) m"

text \<open>The constraints of a goal against a clause head of the same length.\<close>

fun goalConstraints ::
  "Term list \<Rightarrow> Substitution list \<Rightarrow> Term list \<Rightarrow> heap \<Rightarrow> Constraint list \<times> heap"
where
  "goalConstraints (g # gs) ss (t # ts) h =
     (case applyAll g ss h of (g', h1) \<Rightarrow>
        (case goalConstraints gs ss ts h1 of (cs, h2) \<Rightarrow> (Constraint g' t # cs, h2)))"
| "goalConstraints gs ss ts h = ([], h)"

text \<open>\<^verbatim>\<open>for (const f of this.facts)\<close>: every fact is cloned first, then tested against
  the goal; a successful unification pushes one item to the end of the queue.\<close>

fun tryFacts ::
  "Goal \<Rightarrow> Goal list \<Rightarrow> Substitution list \<Rightarrow> Fact list \<Rightarrow> Item list \<Rightarrow> heap
     \<Rightarrow> (Item list \<times> heap) option"
where
  "tryFacts goal goals substitutions [] queue h = Some (queue, h)"
| "tryFacts (Goal gp gts) goals substitutions (f # fs) queue h =
     (case Fact_clone f h of (Fact fp fts, h1) \<Rightarrow>
        if gp \<noteq> fp then tryFacts (Goal gp gts) goals substitutions fs queue h1
        else if length gts \<noteq> length fts then
          tryFacts (Goal gp gts) goals substitutions fs queue h1
        else
          (case goalConstraints gts substitutions fts h1 of (constraints, h2) \<Rightarrow>
             Option.bind (unify constraints h2) (\<lambda>(substitutionsNew, h3).
               (case substitutionsNew of
                  None \<Rightarrow> tryFacts (Goal gp gts) goals substitutions fs queue h3
                | Some new \<Rightarrow>
                    tryFacts (Goal gp gts) goals substitutions fs
                      (queue @ [(drop 1 goals, substitutions @ new)]) h3))))"

text \<open>\<^verbatim>\<open>for (const r of this.rules)\<close>.\<close>

fun tryRules ::
  "Goal \<Rightarrow> Goal list \<Rightarrow> Substitution list \<Rightarrow> Rule list \<Rightarrow> Item list \<Rightarrow> heap
     \<Rightarrow> (Item list \<times> heap) option"
where
  "tryRules goal goals substitutions [] queue h = Some (queue, h)"
| "tryRules (Goal gp gts) goals substitutions (r # rs) queue h =
     (case Rule_clone r h of (Rule (rp, rts) right, h1) \<Rightarrow>
        if gp \<noteq> rp then tryRules (Goal gp gts) goals substitutions rs queue h1
        else if length gts \<noteq> length rts then
          tryRules (Goal gp gts) goals substitutions rs queue h1
        else
          (case goalConstraints gts substitutions rts h1 of (constraints, h2) \<Rightarrow>
             Option.bind (unify constraints h2) (\<lambda>(substitutionsNew, h3).
               (case substitutionsNew of
                  None \<Rightarrow> tryRules (Goal gp gts) goals substitutions rs queue h3
                | Some new \<Rightarrow>
                    tryRules (Goal gp gts) goals substitutions rs
                      (queue @ [(drop 1 goals @ map (\<lambda>(p, ts). Goal p ts) right,
                                 substitutions @ new)]) h3))))"

text \<open>The \<^verbatim>\<open>while (queue.length)\<close> loop of \<^verbatim>\<open>next\<close>: \<^verbatim>\<open>queue.shift()\<close> takes the
  first item. The loop may run forever; not returning is \<open>None\<close>.\<close>

partial_function (option) nextLoop ::
  "Space \<Rightarrow> Variable list \<Rightarrow> Item list \<Rightarrow> heap \<Rightarrow> (IteratorResult \<times> Item list \<times> heap) option"
where
  "nextLoop space freeVariables queue h =
     (case queue of
        [] \<Rightarrow> Some (IteratorResult True [], [], h)
      | (goals, substitutions) # queue' \<Rightarrow>
          (case goals of
             [] \<Rightarrow>
               (case bindVariables freeVariables substitutions [] h of
                  (variableTermMapping, h1) \<Rightarrow>
                    if \<not> isValid variableTermMapping then nextLoop space freeVariables queue' h1
                    else Some (IteratorResult False variableTermMapping, queue', h1))
           | goal # deferred \<Rightarrow>
               (case space of Space facts rules \<Rightarrow>
                  Option.bind (tryFacts goal goals substitutions facts queue' h) (\<lambda>(queue1, h1).
                    Option.bind (tryRules goal goals substitutions rules queue1 h1)
                      (\<lambda>(queue2, h2). nextLoop space freeVariables queue2 h2)))))"

text \<open>One pull: \<^verbatim>\<open>next()\<close> on the iterator of a query.\<close>

fun Iterator_next :: "Iterator \<Rightarrow> heap \<Rightarrow> (IteratorResult \<times> Iterator \<times> heap) option" where
  "Iterator_next (Iterator space queue freeVariables) h =
     map_option (\<lambda>(result, queue', h'). (result, Iterator space queue' freeVariables, h'))
       (nextLoop space freeVariables queue h)"

text \<open>A caller that pulls \<open>n\<close> times and keeps the results in order.\<close>

fun pulls :: "Iterator \<Rightarrow> heap \<Rightarrow> nat \<Rightarrow> (IteratorResult list \<times> Iterator \<times> heap) option" where
  "pulls it h 0 = Some ([], it, h)"
| "pulls it h (Suc n) =
     Option.bind (Iterator_next it h) (\<lambda>(r, it', h').
       map_option (\<lambda>(rs, it'', h''). (r # rs, it'', h'')) (pulls it' h' n))"

declare unify.simps [code]

declare nextLoop.simps [code]

section \<open>Syntactic identity\<close>

text \<open>Two terms are syntactically identical when they differ at most in the addresses of
  their \<^verbatim>\<open>Application\<close> objects: \<open>shape\<close> forgets those addresses and keeps the
  variables, constants and functors with their identities.\<close>

fun shape :: "Term \<Rightarrow> Term" where
  "shape (Var v) = Var v"
| "shape (Con c) = Con c"
| "shape (Application a f ts) = Application 0 f (map shape ts)"

text \<open>The variables of a term as a set; \<open>listVariables\<close> lists exactly these.\<close>

fun vars :: "Term \<Rightarrow> Variable set" where
  "vars (Var v) = {v}"
| "vars (Con c) = {}"
| "vars (Application a f ts) = (\<Union>t \<in> set ts. vars t)"

fun shapeResult :: "IteratorResult \<Rightarrow> IteratorResult" where
  "shapeResult (IteratorResult d m) = IteratorResult d (map (\<lambda>(v, t). (v, shape t)) m)"

text \<open>The substitution of a binding and of a binding list as functions on shapes.\<close>

fun papply :: "Substitution \<Rightarrow> Term \<Rightarrow> Term" where
  "papply s (Var v) = (if v = Substitution_variable s then shape (Substitution_term s) else Var v)"
| "papply s (Con c) = Con c"
| "papply s (Application a f ts) = Application 0 f (map (papply s) ts)"

fun papplyAll :: "Term \<Rightarrow> Substitution list \<Rightarrow> Term" where
  "papplyAll t [] = shape t"
| "papplyAll t (s # ss) = papplyAll (papply s t) ss"

text \<open>A binding list unifies a constraint when it makes both sides the same shape.\<close>

fun unifies :: "Substitution list \<Rightarrow> Constraint \<Rightarrow> bool" where
  "unifies ss (Constraint l r) = (papplyAll l ss = papplyAll r ss)"

text \<open>The bindings an occurs check would accept: no variable is bound to a term that
  contains it.\<close>

definition occursFree :: "Substitution list \<Rightarrow> bool" where
  "occursFree ss =
     list_all (\<lambda>s. Substitution_variable s \<notin> set (listVariables (Substitution_term s))) ss"

text \<open>The variables that occur in a list of constraints.\<close>

fun constraintVariables :: "Constraint list \<Rightarrow> Variable set" where
  "constraintVariables [] = {}"
| "constraintVariables (Constraint l r # cs) =
     set (listVariables l) \<union> set (listVariables r) \<union> constraintVariables cs"

text \<open>The path condition of the constant case of \<^verbatim>\<open>Constraint.unify\<close>: the identity
  test and the variable test have failed, and one side is a constant.\<close>

definition reachesConstantCase :: "Term \<Rightarrow> Term \<Rightarrow> bool" where
  "reachesConstantCase left right =
     (left \<noteq> right \<and> \<not> (isVariable left \<or> isVariable right)
      \<and> (isConstant left \<or> isConstant right))"

section \<open>Renaming\<close>



section \<open>One iteration of the loops over the store\<close>



text \<open>What an iteration appends to the queue.\<close>

definition pushed :: "Item option \<Rightarrow> Item list" where
  "pushed outcome = (case outcome of None \<Rightarrow> [] | Some item \<Rightarrow> [item])"

section \<open>The addition program\<close>

text \<open>The store of the tests: the fact \<^verbatim>\<open>add(z, Y, Y)\<close> and the rule
  \<^verbatim>\<open>add(s(X), Y, s(Z)) :- add(X, Y, Z)\<close>. Its objects take the addresses 0 to 8; a
  query over it takes 9 to 12, and the search starts with the heap at 13.\<close>

definition c_z :: Term where
  "c_z = Con (Constant 0 ''z'')"

definition p_add :: Predicate where
  "p_add = Predicate 1 ''add''"

definition f_s :: Functor where
  "f_s = Functor 2 ''s''"

definition S :: "ident \<Rightarrow> Term \<Rightarrow> Term" where
  "S a t = Application a f_s [t]"

definition add_fact :: Fact where
  "add_fact = Fact p_add [c_z, Var (Variable 3 ''Y''), Var (Variable 3 ''Y'')]"

definition add_rule :: Rule where
  "add_rule =
     Rule (p_add, [S 7 (Var (Variable 4 ''X'')), Var (Variable 5 ''Y''),
                   S 8 (Var (Variable 6 ''Z''))])
          [(p_add, [Var (Variable 4 ''X''), Var (Variable 5 ''Y''),
                    Var (Variable 6 ''Z'')])]"

definition add_space :: Space where
  "add_space = Space [add_fact] [add_rule]"

section \<open>Small terms for the examples\<close>

text \<open>Two variables, two constants and a functor, at the addresses 0 to 4.\<close>

definition v_X :: Variable where
  "v_X = Variable 0 ''X''"

definition v_Y :: Variable where
  "v_Y = Variable 1 ''Y''"

definition c_a :: Term where
  "c_a = Con (Constant 2 ''a'')"

definition c_b :: Term where
  "c_b = Con (Constant 3 ''b'')"

definition f_f :: Functor where
  "f_f = Functor 4 ''f''"

text \<open>Two predicates at the addresses 5 and 6, and a store with the fact \<^verbatim>\<open>p(a)\<close> and
  the rule \<^verbatim>\<open>p(Y) :- q(Y)\<close>.\<close>

definition p_p :: Predicate where
  "p_p = Predicate 5 ''p''"



text \<open>The term \<^verbatim>\<open>f(X, X)\<close>, at the address 5.\<close>

definition t_fXX :: Term where
  "t_fXX = Application 5 f_f [Var v_X, Var v_X]"

section \<open>Variables, shapes and substitution\<close>


lemma set_Set_add: "set (Set_add x xs) = insert x (set xs)"
  by (auto simp: Set_add_def)

lemma distinct_Set_add: "distinct xs \<Longrightarrow> distinct (Set_add x xs)"
  by (auto simp: Set_add_def)

lemma set_Set_addAll: "set (Set_addAll vs xs) = set vs \<union> set xs"
  unfolding Set_addAll_def
  by (induction xs arbitrary: vs) (auto simp: set_Set_add)

lemma distinct_Set_addAll: "distinct vs \<Longrightarrow> distinct (Set_addAll vs xs)"
  unfolding Set_addAll_def
  by (induction xs arbitrary: vs) (auto simp: distinct_Set_add)

lemma set_foldl_addAll:
  "set (foldl (\<lambda>acc t. Set_addAll acc (g t)) vs ts) = set vs \<union> (\<Union>t \<in> set ts. set (g t))"
  by (induction ts arbitrary: vs) (auto simp: set_Set_addAll)

lemma distinct_foldl_addAll:
  "distinct vs \<Longrightarrow> distinct (foldl (\<lambda>acc t. Set_addAll acc (g t)) vs ts)"
  by (induction ts arbitrary: vs) (auto simp: distinct_Set_addAll)

lemma set_listVariables: "set (listVariables t) = vars t"
  by (induction t) (auto simp: set_foldl_addAll)

lemma distinct_listVariables: "distinct (listVariables t)"
  by (cases t) (auto simp: distinct_foldl_addAll)

lemma listVariables_Nil: "listVariables t = [] \<longleftrightarrow> vars t = {}"
  using set_listVariables [of t] by auto



lemma shape_idem: "shape (shape t) = shape t"
  by (induction t) auto

lemma vars_shape: "vars (shape t) = vars t"
  by (induction t) auto

lemma shape_apply_both:
  "shape (fst (Substitution_apply s t h)) = papply s t"
  "map shape (fst (Substitution_apply_terms s ts h)) = map (papply s) ts"
  by (induction s t h and s ts h rule: Substitution_apply_Substitution_apply_terms.induct)
     (auto simp: newApplication_def split: prod.splits)

lemma papply_shape: "papply s (shape t) = papply s t"
  by (induction t) auto

lemma shape_papply: "shape (papply s t) = papply s t"
  by (induction t) (auto simp: shape_idem)

lemma papplyAll_cong: "shape t1 = shape t2 \<Longrightarrow> papplyAll t1 ss = papplyAll t2 ss"
proof (induction ss arbitrary: t1 t2)
  case Nil
  then show ?case by simp
next
  case (Cons s ss)
  have "papply s t1 = papply s t2"
    using Cons.prems papply_shape by metis
  then show ?case by simp
qed

lemma shape_applyAll: "shape (fst (applyAll t ss h)) = papplyAll t ss"
proof (induction ss arbitrary: t h)
  case Nil
  then show ?case by simp
next
  case (Cons s ss)
  obtain t' h' where a: "Substitution_apply s t h = (t', h')"
    by (cases "Substitution_apply s t h")
  have "shape t' = shape (papply s t)"
    using shape_apply_both(1) [of s t h] a by (simp add: shape_papply)
  then have "papplyAll t' ss = papplyAll (papply s t) ss"
    by (rule papplyAll_cong)
  with Cons.IH [of t' h'] a show ?case by simp
qed

lemma papplyAll_Application:
  "papplyAll (Application a f ts) ss = Application 0 f (map (\<lambda>t. papplyAll t ss) ts)"
proof (induction ss arbitrary: a ts)
  case Nil
  then show ?case by simp
next
  case (Cons s ss)
  then show ?case by (simp add: comp_def)
qed

lemma papplyAll_Con: "papplyAll (Con c) ss = Con c"
  by (induction ss) auto

lemma papply_fresh: "Substitution_variable s \<notin> vars t \<Longrightarrow> papply s t = shape t"
  by (induction t) auto

lemma papplyAll_ground: "vars t = {} \<Longrightarrow> papplyAll t ss = shape t"
proof (induction ss arbitrary: t)
  case Nil
  then show ?case by simp
next
  case (Cons s ss)
  have "papply s t = shape t" using Cons.prems by (simp add: papply_fresh)
  moreover have "vars (shape t) = {}" using Cons.prems by (simp add: vars_shape)
  ultimately show ?case using Cons.IH [of "shape t"] by (simp add: shape_idem)
qed

lemma vars_papply: "vars (papply s t) \<subseteq> vars t \<union> vars (Substitution_term s)"
  by (induction t) (auto simp: vars_shape)

lemma vars_apply: "vars (fst (Substitution_apply s t h)) \<subseteq> vars t \<union> vars (Substitution_term s)"
  using vars_papply [of s t] shape_apply_both(1) [of s t h] vars_shape by metis


section \<open>Unification: soundness and variables\<close>


text \<open>The two branches of the model of \<^verbatim>\<open>unify\<close> that return \<open>None\<close> outright are
  never taken: a binding exists whenever one side is a variable, and a term that is neither
  a variable nor a constant is an application.\<close>

lemma makeSubstitution_defined:
  "isVariable left \<or> isVariable right \<Longrightarrow> makeSubstitution left right \<noteq> None"
  by (cases left; cases right) auto

lemma application_otherwise:
  "\<not> isVariable t \<Longrightarrow> \<not> isConstant t \<Longrightarrow> \<exists>a f ts. t = Application a f ts"
  by (cases t) auto

lemma applyConstraints_shape:
  "applyConstraints s cs h = (cs', h') \<Longrightarrow>
   list_all2 (\<lambda>c c'. \<forall>ss. unifies ss c' = unifies (s # ss) c) cs cs'"
proof (induction cs arbitrary: h cs' h')
  case Nil
  then show ?case by simp
next
  case (Cons c cs)
  obtain l r where c: "c = Constraint l r" by (cases c)
  obtain l' h1 where l: "Substitution_apply s l h = (l', h1)" by (cases "Substitution_apply s l h")
  obtain r' h2 where r: "Substitution_apply s r h1 = (r', h2)" by (cases "Substitution_apply s r h1")
  obtain cs1 h3 where t: "applyConstraints s cs h2 = (cs1, h3)" by (cases "applyConstraints s cs h2")
  have cs': "cs' = Constraint l' r' # cs1"
    using Cons.prems c l r t by simp
  have sl: "shape l' = shape (papply s l)"
    using shape_apply_both(1) [of s l h] l by (simp add: shape_papply)
  have sr: "shape r' = shape (papply s r)"
    using shape_apply_both(1) [of s r h1] r by (simp add: shape_papply)
  have "\<forall>ss. unifies ss (Constraint l' r') = unifies (s # ss) (Constraint l r)"
    using papplyAll_cong [OF sl] papplyAll_cong [OF sr] by simp
  moreover have "list_all2 (\<lambda>c c'. \<forall>ss. unifies ss c' = unifies (s # ss) c) cs cs1"
    using Cons.IH [OF t] .
  ultimately show ?case using c cs' by simp
qed

lemma makeSubstitution_cases:
  assumes "makeSubstitution left right = Some s"
  obtains v where "left = Var v" "s = Substitution v right"
  | v where "right = Var v" "s = Substitution v left" "\<not> isVariable left"
  using assms by (cases left; cases right) auto

lemma unifies_bound_variable:
  assumes "v \<notin> vars t"
  shows "papplyAll (Var v) (Substitution v t # ss) = papplyAll t (Substitution v t # ss)"
proof -
  have "papply (Substitution v t) t = shape t"
    using assms by (simp add: papply_fresh)
  then have "papplyAll t (Substitution v t # ss) = papplyAll (shape t) ss" by simp
  then show ?thesis by simp
qed

lemma bind_step_unifies:
  assumes m: "makeSubstitution left right = Some s"
    and a: "applyConstraints s rest h = (rest', h')"
    and ih: "\<forall>c \<in> set rest'. unifies ss c"
    and o: "Substitution_variable s \<notin> vars (Substitution_term s)"
  shows "\<forall>c \<in> set (Constraint left right # rest). unifies (s # ss) c"
proof -
  have hd: "unifies (s # ss) (Constraint left right)"
  proof (rule makeSubstitution_cases [OF m])
    fix v assume "left = Var v" "s = Substitution v right"
    then show ?thesis using unifies_bound_variable [of v right ss] o by simp
  next
    fix v assume "right = Var v" "s = Substitution v left" "\<not> isVariable left"
    then show ?thesis using unifies_bound_variable [of v left ss] o by simp
  qed
  have "list_all2 (\<lambda>c c'. \<forall>ss. unifies ss c' = unifies (s # ss) c) rest rest'"
    using applyConstraints_shape [OF a] .
  then have "\<forall>c \<in> set rest. unifies (s # ss) c"
    using ih by (induction rule: list_all2_induct) auto
  with hd show ?thesis by simp
qed

lemma zipConstraints_unifies:
  "length lts = length rts \<Longrightarrow> \<forall>c \<in> set (zipConstraints lts rts). unifies ss c \<Longrightarrow>
   map (\<lambda>t. papplyAll t ss) lts = map (\<lambda>t. papplyAll t ss) rts"
  by (induction lts rts rule: list_induct2) auto

lemma app_step_unifies:
  assumes "length lts = length rts"
    and "\<forall>c \<in> set (zipConstraints lts rts @ rest). unifies ss c"
  shows "\<forall>c \<in> set (Constraint (Application la f lts) (Application ra f rts) # rest). unifies ss c"
  using assms zipConstraints_unifies [of lts rts ss]
  by (simp add: papplyAll_Application)

lemma occursFree_Cons:
  "occursFree (s # ss) \<longleftrightarrow> Substitution_variable s \<notin> vars (Substitution_term s) \<and> occursFree ss"
  by (simp add: occursFree_def set_listVariables)

lemma unify_unifies:
  assumes "unify cs h = Some y"
  shows "\<forall>ss h'. y = (Some ss, h') \<longrightarrow> occursFree ss \<longrightarrow> (\<forall>c \<in> set cs. unifies ss c)"
  using assms
proof (induction cs h y rule: unify.raw_induct [rotated 1, consumes 1])
  case (1 unify cs h y)
  show ?case
  proof (cases cs)
    case Nil
    then show ?thesis by simp
  next
    case (Cons c rest)
    obtain left right where c: "c = Constraint left right" by (cases c)
    note body = 1(2) [unfolded Cons c, simplified]
    show ?thesis
    proof (cases "left = right")
      case True
      then have "unify rest h = Some y" using body by simp
      from 1(1) [OF this] show ?thesis using Cons c True by simp
    next
      case ne: False
      show ?thesis
      proof (cases "isVariable left \<or> isVariable right")
        case True
        show ?thesis
        proof (intro allI impI)
          fix ss h' assume y: "y = (Some ss, h')" and o: "occursFree ss"
          from body ne True obtain s where m: "makeSubstitution left right = Some s"
            by (auto split: option.splits)
          obtain rest' h1 where a: "applyConstraints s rest h = (rest', h1)"
            by (cases "applyConstraints s rest h")
          from body ne True m a y obtain ss' where
            u: "unify rest' h1 = Some (Some ss', h')" and ss: "ss = s # ss'"
            by (auto split: option.splits prod.splits simp: bind_eq_Some_conv)
          have o1: "Substitution_variable s \<notin> vars (Substitution_term s)" and o2: "occursFree ss'"
            using o ss by (simp_all add: occursFree_Cons)
          have "\<forall>c \<in> set rest'. unifies ss' c"
            using 1(1) [OF u] o2 by simp
          from bind_step_unifies [OF m a this o1]
          show "\<forall>c \<in> set cs. unifies ss c" using Cons c ss by simp
        qed
      next
        case nv: False
        show ?thesis
        proof (cases "isConstant left \<or> isConstant right")
          case True
          then show ?thesis using body ne nv by auto
        next
          case nc: False
          show ?thesis
          proof (intro allI impI)
            fix ss h' assume y: "y = (Some ss, h')" and o: "occursFree ss"
            from body ne nv nc y obtain la f lts ra rts where
              l: "left = Application la f lts" and r: "right = Application ra f rts"
              and len: "length lts = length rts"
              and u: "unify (zipConstraints lts rts @ rest) h = Some y"
              by (auto split: Term.splits if_splits)
            have "\<forall>c \<in> set (zipConstraints lts rts @ rest). unifies ss c"
              using 1(1) [OF u] y o by simp
            from app_step_unifies [OF len this]
            show "\<forall>c \<in> set cs. unifies ss c" using Cons c l r by simp
          qed
        qed
      qed
    qed
  qed
qed



lemma constraintVariables_set:
  "constraintVariables cs = (\<Union>c \<in> set cs. case c of Constraint l r \<Rightarrow> vars l \<union> vars r)"
  by (induction cs rule: constraintVariables.induct) (auto simp: set_listVariables)

lemma constraintVariables_Cons:
  "constraintVariables (Constraint l r # cs) = vars l \<union> vars r \<union> constraintVariables cs"
  by (simp add: set_listVariables)

lemma constraintVariables_append:
  "constraintVariables (cs @ ds) = constraintVariables cs \<union> constraintVariables ds"
  by (induction cs rule: constraintVariables.induct) auto

lemma constraintVariables_zip:
  "constraintVariables (zipConstraints lts rts) \<subseteq> (\<Union>t \<in> set lts. vars t) \<union> (\<Union>t \<in> set rts. vars t)"
  by (induction lts rts rule: zipConstraints.induct) (auto simp: set_listVariables)

lemma constraintVariables_apply:
  "applyConstraints s cs h = (cs', h') \<Longrightarrow>
   constraintVariables cs' \<subseteq> constraintVariables cs \<union> vars (Substitution_term s)"
proof (induction cs arbitrary: h cs' h')
  case Nil
  then show ?case by simp
next
  case (Cons c cs)
  obtain l r where c: "c = Constraint l r" by (cases c)
  obtain l' h1 where l: "Substitution_apply s l h = (l', h1)" by (cases "Substitution_apply s l h")
  obtain r' h2 where r: "Substitution_apply s r h1 = (r', h2)" by (cases "Substitution_apply s r h1")
  obtain cs1 h3 where t: "applyConstraints s cs h2 = (cs1, h3)" by (cases "applyConstraints s cs h2")
  have cs': "cs' = Constraint l' r' # cs1"
    using Cons.prems c l r t by simp
  have "vars l' \<subseteq> vars l \<union> vars (Substitution_term s)"
    using vars_apply [of s l h] l by simp
  moreover have "vars r' \<subseteq> vars r \<union> vars (Substitution_term s)"
    using vars_apply [of s r h1] r by simp
  moreover note Cons.IH [OF t]
  ultimately show ?case unfolding c cs' constraintVariables_Cons by auto
qed

lemma makeSubstitution_vars:
  assumes "makeSubstitution left right = Some s"
  shows "Substitution_variable s \<in> vars left \<union> vars right"
    and "vars (Substitution_term s) \<subseteq> vars left \<union> vars right"
  using assms by (cases left; cases right; auto)+

lemma unify_variables:
  assumes "unify cs h = Some y"
  shows "\<forall>ss h'. y = (Some ss, h') \<longrightarrow>
           (\<forall>s \<in> set ss. Substitution_variable s \<in> constraintVariables cs
                        \<and> vars (Substitution_term s) \<subseteq> constraintVariables cs)"
  using assms
proof (induction cs h y rule: unify.raw_induct [rotated 1, consumes 1])
  case (1 unify cs h y)
  show ?case
  proof (cases cs)
    case Nil
    then show ?thesis using 1(2) by auto
  next
    case (Cons c rest)
    obtain left right where c: "c = Constraint left right" by (cases c)
    note body = 1(2) [unfolded Cons c, simplified]
    show ?thesis
    proof (cases "left = right")
      case True
      then have "unify rest h = Some y" using body by simp
      from 1(1) [OF this] show ?thesis using Cons c True by auto
    next
      case ne: False
      show ?thesis
      proof (cases "isVariable left \<or> isVariable right")
        case True
        show ?thesis
        proof (intro allI impI ballI)
          fix ss h' b assume y: "y = (Some ss, h')" and b: "b \<in> set ss"
          from body ne True obtain s where m: "makeSubstitution left right = Some s"
            by (auto split: option.splits)
          obtain rest' h1 where a: "applyConstraints s rest h = (rest', h1)"
            by (cases "applyConstraints s rest h")
          from body ne True m a y obtain ss' where
            u: "unify rest' h1 = Some (Some ss', h')" and ss: "ss = s # ss'"
            by (auto split: option.splits prod.splits simp: bind_eq_Some_conv)
          have ih: "\<forall>s \<in> set ss'. Substitution_variable s \<in> constraintVariables rest'
                        \<and> vars (Substitution_term s) \<subseteq> constraintVariables rest'"
            using 1(1) [OF u] by simp
          have sub: "constraintVariables rest' \<subseteq> constraintVariables cs"
            using constraintVariables_apply [OF a] makeSubstitution_vars(2) [OF m]
            unfolding Cons c constraintVariables_Cons by auto
          have hd: "Substitution_variable s \<in> constraintVariables cs"
            "vars (Substitution_term s) \<subseteq> constraintVariables cs"
            using makeSubstitution_vars [OF m]
            unfolding Cons c constraintVariables_Cons by auto
          show "Substitution_variable b \<in> constraintVariables cs
                  \<and> vars (Substitution_term b) \<subseteq> constraintVariables cs"
            using b ss hd ih sub by auto
        qed
      next
        case nv: False
        show ?thesis
        proof (cases "isConstant left \<or> isConstant right")
          case True
          then show ?thesis using body ne nv by auto
        next
          case nc: False
          show ?thesis
          proof (intro allI impI ballI)
            fix ss h' b assume y: "y = (Some ss, h')" and b: "b \<in> set ss"
            from body ne nv nc y obtain la f lts ra rts where
              l: "left = Application la f lts" and r: "right = Application ra f rts"
              and len: "length lts = length rts"
              and u: "unify (zipConstraints lts rts @ rest) h = Some y"
              by (auto split: Term.splits if_splits)
            have ih: "Substitution_variable b \<in> constraintVariables (zipConstraints lts rts @ rest)
                        \<and> vars (Substitution_term b) \<subseteq> constraintVariables (zipConstraints lts rts @ rest)"
              using 1(1) [OF u] y b by simp
            have "constraintVariables (zipConstraints lts rts @ rest) \<subseteq> constraintVariables cs"
              using constraintVariables_zip [of lts rts]
              unfolding Cons c l r constraintVariables_append constraintVariables_Cons
              by auto
            with ih show "Substitution_variable b \<in> constraintVariables cs
                  \<and> vars (Substitution_term b) \<subseteq> constraintVariables cs"
              by auto
          qed
        qed
      qed
    qed
  qed
qed

section \<open>Unification need not return\<close>

text \<open>The system \<^verbatim>\<open>X = f(X, X), X = f(X, X)\<close> (both constraints share the object
  \<^verbatim>\<open>f(X, X)\<close>) is never solved: binding \<^verbatim>\<open>X\<close> rewrites the second constraint to
  \<^verbatim>\<open>f(X, X) = f(f(X, X), f(X, X))\<close>, whose arguments give the first system back. The
  recursion of the source has no end there.\<close>

lemma unify_cycle_never_returns:
  assumes "unify cs h = Some y"
  shows "cs \<noteq> [Constraint (Var v_X) t_fXX, Constraint (Var v_X) t_fXX]
         \<and> (\<forall>a. cs \<noteq> [Constraint t_fXX (Application a f_f [t_fXX, t_fXX])])"
  using assms
proof (induction cs h y rule: unify.raw_induct [rotated 1, consumes 1])
  case (1 unify cs h y)
  show ?case
  proof (intro conjI allI notI)
    assume cs: "cs = [Constraint (Var v_X) t_fXX, Constraint (Var v_X) t_fXX]"
    have "\<exists>z. unify [Constraint t_fXX (Application h f_f [t_fXX, t_fXX])] (Suc h) = Some z"
      using 1(2) unfolding cs
      by (auto simp: t_fXX_def newApplication_def bind_eq_Some_conv split: if_splits)
    then show False using 1(1) by blast
  next
    fix a assume cs: "cs = [Constraint t_fXX (Application a f_f [t_fXX, t_fXX])]"
    have "unify [Constraint (Var v_X) t_fXX, Constraint (Var v_X) t_fXX] h = Some y"
      using 1(2) unfolding cs
      by (auto simp: t_fXX_def split: if_splits)
    then show False using 1(1) by blast
  qed
qed

lemma unify_diverges:
  "unify [Constraint (Var v_X) t_fXX, Constraint (Var v_X) t_fXX] h = None"
  using unify_cycle_never_returns [of "[Constraint (Var v_X) t_fXX, Constraint (Var v_X) t_fXX]" h]
  by (cases "unify [Constraint (Var v_X) t_fXX, Constraint (Var v_X) t_fXX] h") auto

section \<open>The search loop\<close>

lemma length_applyAll_terms_aux:
  "applyAll_terms ts ss h = (ts', h') \<Longrightarrow> length ts' = length ts"
  by (induction ts arbitrary: h ts' h') (auto split: prod.splits)

lemma length_applyAll_terms: "length (fst (applyAll_terms ts ss h)) = length ts"
  using length_applyAll_terms_aux [of ts ss h] by (cases "applyAll_terms ts ss h") auto

lemma Fact_clone_head:
  "Fact_predicate (fst (Fact_clone f h)) = Fact_predicate f
   \<and> length (Fact_terms (fst (Fact_clone f h))) = length (Fact_terms f)"
proof (cases f)
  case (Fact p ts)
  obtain ss h1 where a: "freshSubstitutions (collectVariables [] ts) h = (ss, h1)"
    by (cases "freshSubstitutions (collectVariables [] ts) h")
  obtain ts' h2 where b: "applyAll_terms ts ss h1 = (ts', h2)"
    by (cases "applyAll_terms ts ss h1")
  show ?thesis
    using Fact a b length_applyAll_terms [of ts ss h1] by simp
qed

lemma Rule_clone_head:
  "Rule_predicate (fst (Rule_clone r h)) = Rule_predicate r
   \<and> length (Rule_terms (fst (Rule_clone r h))) = length (Rule_terms r)"
proof (cases r)
  case (Rule left right)
  obtain p ts where left: "left = (p, ts)" by (cases left)
  obtain ss h1 where a: "freshSubstitutions
             (foldl (\<lambda>acc (p, ts'). collectVariables acc ts') (collectVariables [] ts) right) h = (ss, h1)"
    by (cases "freshSubstitutions
             (foldl (\<lambda>acc (p, ts'). collectVariables acc ts') (collectVariables [] ts) right) h")
  obtain ts' h2 where b: "applyAll_terms ts ss h1 = (ts', h2)"
    by (cases "applyAll_terms ts ss h1")
  obtain right' h3 where c: "applyAll_atoms right ss h2 = (right', h3)"
    by (cases "applyAll_atoms right ss h2")
  show ?thesis
    using Rule left a b c length_applyAll_terms [of ts ss h1] by simp
qed

lemma tryFacts_no_match:
  "\<forall>f \<in> set facts. Fact_predicate f \<noteq> Goal_predicate goal \<Longrightarrow>
   \<exists>h'. tryFacts goal goals subs facts queue h = Some (queue, h')"
proof (induction facts arbitrary: h)
  case Nil
  then show ?case by simp
next
  case (Cons f fs)
  obtain gp gts where g: "goal = Goal gp gts" by (cases goal)
  obtain fp fts h1 where c: "Fact_clone f h = (Fact fp fts, h1)"
    by (cases "Fact_clone f h") (metis Fact.exhaust)
  have "fp = Fact_predicate f" using Fact_clone_head [of f h] c by simp
  then have "gp \<noteq> fp" using Cons.prems g by auto
  moreover obtain h' where "tryFacts goal goals subs fs queue h1 = Some (queue, h')"
    using Cons.IH [of h1] Cons.prems by auto
  ultimately show ?case using g c by simp
qed

lemma tryRules_no_match:
  "\<forall>r \<in> set rules. Rule_predicate r \<noteq> Goal_predicate goal \<Longrightarrow>
   \<exists>h'. tryRules goal goals subs rules queue h = Some (queue, h')"
proof (induction rules arbitrary: h)
  case Nil
  then show ?case by simp
next
  case (Cons r rs)
  obtain gp gts where g: "goal = Goal gp gts" by (cases goal)
  obtain rp rts right h1 where c: "Rule_clone r h = (Rule (rp, rts) right, h1)"
    by (cases "Rule_clone r h") (metis Rule.exhaust surj_pair)
  have "rp = Rule_predicate r" using Rule_clone_head [of r h] c by simp
  then have "gp \<noteq> rp" using Cons.prems g by auto
  moreover obtain h' where "tryRules goal goals subs rs queue h1 = Some (queue, h')"
    using Cons.IH [of h1] Cons.prems by auto
  ultimately show ?case using g c by simp
qed

lemma nextLoop_Nil: "nextLoop space fv [] h = Some (IteratorResult True [], [], h)"
  by (simp add: nextLoop.simps)

lemma nextLoop_done:
  assumes "nextLoop space fv queue h = Some y"
  shows "\<forall>m q' h'. y = (IteratorResult True m, q', h') \<longrightarrow> q' = [] \<and> m = []"
  using assms
proof (induction space fv queue h y rule: nextLoop.raw_induct [rotated 1, consumes 1])
  case (1 nextLoop space fv queue h y)
  show ?case
  proof (cases queue)
    case Nil
    then show ?thesis using 1(2) by auto
  next
    case (Cons item queue')
    obtain goals subs where item: "item = (goals, subs)" by (cases item)
    note body = 1(2) [unfolded Cons item, simplified]
    show ?thesis
    proof (cases goals)
      case Nil
      obtain vm h1 where b: "bindVariables fv subs [] h = (vm, h1)"
        by (cases "bindVariables fv subs [] h")
      show ?thesis
      proof (cases "isValid vm")
        case True
        then show ?thesis using body Nil b by auto
      next
        case False
        then have "nextLoop space fv queue' h1 = Some y" using body Nil b by simp
        from 1(1) [OF this] show ?thesis .
      qed
    next
      case (Cons goal deferred)
      obtain facts rules where sp: "space = Space facts rules" by (cases space)
      from body Cons sp obtain q2 h2 where "nextLoop space fv q2 h2 = Some y"
        by (auto simp: bind_eq_Some_conv)
      from 1(1) [OF this] show ?thesis .
    qed
  qed
qed

lemma pulls_exhausted:
  "map_option fst (pulls (Iterator space [] fv) h n) = Some (replicate n (IteratorResult True []))"
  by (induction n) (auto simp: nextLoop_Nil)








section \<open>The loops over the store\<close>



lemma map_filter_pushed: "List.map_filter id (outcome # os) = pushed outcome @ List.map_filter id os"
  by (cases outcome) (simp_all add: pushed_def List.map_filter_simps)




lemma steps_unique:
  assumes "length os = length xs" "length ks = Suc (length xs)" "ks ! 0 = h"
    and "\<forall>i < length xs. step (xs ! i) (ks ! i) = Some (os ! i, ks ! Suc i)"
    and "length os' = length xs" "length ks' = Suc (length xs)" "ks' ! 0 = h"
    and "\<forall>i < length xs. step (xs ! i) (ks' ! i) = Some (os' ! i, ks' ! Suc i)"
  shows "os = os' \<and> ks = ks'"
proof -
  have k: "i \<le> length xs \<Longrightarrow> ks ! i = ks' ! i" for i
  proof (induction i)
    case 0
    then show ?case using assms(3,7) by simp
  next
    case (Suc i)
    then have "i < length xs" and "ks ! i = ks' ! i" by simp_all
    then have "Some (os ! i, ks ! Suc i) = Some (os' ! i, ks' ! Suc i)"
      using assms(4,8) by metis
    then show ?case by simp
  qed
  have o: "i < length xs \<Longrightarrow> os ! i = os' ! i" for i
  proof -
    assume i: "i < length xs"
    then have "ks ! i = ks' ! i" using k [of i] by simp
    then have "Some (os ! i, ks ! Suc i) = Some (os' ! i, ks' ! Suc i)"
      using assms(4,8) i by metis
    then show ?thesis by simp
  qed
  have "os = os'" using o assms(1,5) by (simp add: nth_equalityI)
  moreover have "ks = ks'" using k assms(2,6) by (simp add: nth_equalityI)
  ultimately show ?thesis by simp
qed



section \<open>Standardizing apart\<close>
























section \<open>The addition queries\<close>

text \<open>
  C1. Over the addition store, the query \<^verbatim>\<open>add(X, Y, s(s(z)))\<close> yields three answers,
  in this order: \<^verbatim>\<open>{X -> z, Y -> s(s(z))}\<close>, \<^verbatim>\<open>{X -> s(z), Y -> s(z)}\<close>,
  \<^verbatim>\<open>{X -> s(s(z)), Y -> z}\<close>; the fourth pull reports exhaustion. Each of the four pulls
  returns.
\<close>

theorem add_query_three_answers:
  "map_option (\<lambda>(rs, it, h). map shapeResult rs)
     (pulls (Space_query add_space
               [Goal p_add [Var (Variable 9 ''X''), Var (Variable 10 ''Y''), S 12 (S 11 c_z)]])
        13 4)
   = Some [IteratorResult False [(Variable 9 ''X'', c_z), (Variable 10 ''Y'', S 0 (S 0 c_z))],
           IteratorResult False [(Variable 9 ''X'', S 0 c_z), (Variable 10 ''Y'', S 0 c_z)],
           IteratorResult False [(Variable 9 ''X'', S 0 (S 0 c_z)), (Variable 10 ''Y'', c_z)],
           IteratorResult True []]"
  by code_simp

text \<open>
  C2. Over the addition store, the query \<^verbatim>\<open>add(s(z), s(s(z)), V)\<close> yields one answer,
  \<^verbatim>\<open>V -> s(s(s(z)))\<close>, and the second pull reports exhaustion. Both pulls return.
\<close>

theorem add_query_one_answer:
  "map_option (\<lambda>(rs, it, h). map shapeResult rs)
     (pulls (Space_query add_space
               [Goal p_add [S 10 c_z, S 12 (S 11 c_z), Var (Variable 9 ''V'')]])
        13 2)
   = Some [IteratorResult False [(Variable 9 ''V'', S 0 (S 0 (S 0 c_z)))],
           IteratorResult True []]"
  by code_simp

section \<open>Unification and substitution\<close>

text \<open>
  C3, as amended. When \<^verbatim>\<open>unify\<close> succeeds on a list of constraints and no binding of
  the returned list binds a variable to a term that contains it, applying the returned list
  (\<^verbatim>\<open>applyAll\<close>, in order) to the two sides of any input constraint gives syntactically
  identical terms, whatever the heap at the two applications.
\<close>

theorem unify_makes_sides_identical:
  assumes "unify cs h = Some (Some ss, h')"
    and "occursFree ss"
    and "Constraint l r \<in> set cs"
  shows "shape (fst (applyAll l ss h1)) = shape (fst (applyAll r ss h2))"
proof -
  have "unifies ss (Constraint l r)"
    using unify_unifies [OF assms(1)] assms(2,3) by blast
  then show ?thesis by (simp add: shape_applyAll)
qed

text \<open>The witness: \<^verbatim>\<open>f(X, Y) = f(a, b)\<close> is solved by \<^verbatim>\<open>[X -> a, Y -> b]\<close>.\<close>

theorem unify_makes_sides_identical_witness:
  "unify [Constraint (Application 5 f_f [Var v_X, Var v_Y]) (Application 6 f_f [c_a, c_b])] 7
     = Some (Some [Substitution v_X c_a, Substitution v_Y c_b], 7)
   \<and> occursFree [Substitution v_X c_a, Substitution v_Y c_b]
   \<and> shape (fst (applyAll (Application 5 f_f [Var v_X, Var v_Y])
                    [Substitution v_X c_a, Substitution v_Y c_b] 7))
     = shape (fst (applyAll (Application 6 f_f [c_a, c_b])
                    [Substitution v_X c_a, Substitution v_Y c_b] 9))"
proof -
  have u: "unify [Constraint (Application 5 f_f [Var v_X, Var v_Y]) (Application 6 f_f [c_a, c_b])] 7
     = Some (Some [Substitution v_X c_a, Substitution v_Y c_b], 7)"
    by code_simp
  have o: "occursFree [Substitution v_X c_a, Substitution v_Y c_b]"
    by code_simp
  have m: "Constraint (Application 5 f_f [Var v_X, Var v_Y]) (Application 6 f_f [c_a, c_b])
     \<in> set [Constraint (Application 5 f_f [Var v_X, Var v_Y]) (Application 6 f_f [c_a, c_b])]"
    by simp
  show ?thesis
    using u o unify_makes_sides_identical [OF u o m, of 7 9] by simp
qed

text \<open>
  The claim without the restriction fails: there is no occurs check, so \<^verbatim>\<open>X = f(X)\<close>
  succeeds with \<^verbatim>\<open>[X -> f(X)]\<close>, which turns the left side into \<^verbatim>\<open>f(X)\<close> and the right
  side into \<^verbatim>\<open>f(f(X))\<close>.
\<close>

theorem unify_cyclic_binding_counterexample:
  "unify [Constraint (Var v_X) (Application 5 f_f [Var v_X])] 6
     = Some (Some [Substitution v_X (Application 5 f_f [Var v_X])], 6)
   \<and> shape (fst (applyAll (Var v_X) [Substitution v_X (Application 5 f_f [Var v_X])] 6))
     \<noteq> shape (fst (applyAll (Application 5 f_f [Var v_X])
                     [Substitution v_X (Application 5 f_f [Var v_X])] 6))"
  by code_simp

text \<open>
  C4. Applying any list of bindings to a term without variables (\<^verbatim>\<open>listVariables\<close> returns
  the empty set) gives back the same term: the result is syntactically identical to the
  input (a compound term is rebuilt as a new object of the same shape). Two applications
  of the same list return identical terms, and so does applying the list again to the
  result.
\<close>

theorem ground_apply_noop:
  assumes "listVariables t = []"
  shows "shape (fst (applyAll t ss h)) = shape t
         \<and> shape (fst (applyAll t ss h1)) = shape (fst (applyAll t ss h2))
         \<and> shape (fst (applyAll (fst (applyAll t ss h1)) ss h2)) = shape t"
proof -
  have g: "vars t = {}" using assms by (simp add: listVariables_Nil)
  have a: "\<And>k. shape (fst (applyAll t ss k)) = shape t"
    using g by (simp add: shape_applyAll papplyAll_ground)
  have "papplyAll (fst (applyAll t ss h1)) ss = papplyAll t ss"
    using a [of h1] by (rule papplyAll_cong)
  then show ?thesis
    using a g by (simp add: shape_applyAll papplyAll_ground)
qed

theorem ground_apply_noop_witness:
  "listVariables (S 11 (S 10 c_z)) = []
   \<and> shape (fst (applyAll (S 11 (S 10 c_z)) [Substitution v_X c_a, Substitution v_Y c_b] 12))
       = shape (S 11 (S 10 c_z))
   \<and> shape (fst (applyAll (S 11 (S 10 c_z)) [Substitution v_X c_a, Substitution v_Y c_b] 12))
       = shape (fst (applyAll (S 11 (S 10 c_z)) [Substitution v_X c_a, Substitution v_Y c_b] 16))"
proof -
  have g: "listVariables (S 11 (S 10 c_z)) = []"
    by (simp add: S_def c_z_def Set_addAll_def)
  show ?thesis
    using g ground_apply_noop [OF g, of "[Substitution v_X c_a, Substitution v_Y c_b]" 12 12 16]
    by blast
qed

text \<open>
  C9. Unification and substitution mint no variable. Every variable of the binding list
  that a successful \<^verbatim>\<open>unify\<close> returns, as a bound variable or inside a bound term, occurs
  in the input constraints; every variable of the result of \<^verbatim>\<open>apply\<close> occurs in the
  input term or in the replacement term of the binding.
\<close>

theorem no_new_variables:
  "(unify cs h = Some (Some ss, h') \<longrightarrow>
      (\<forall>s \<in> set ss. Substitution_variable s \<in> constraintVariables cs
                   \<and> set (listVariables (Substitution_term s)) \<subseteq> constraintVariables cs))
   \<and> set (listVariables (fst (Substitution_apply b t k)))
       \<subseteq> set (listVariables t) \<union> set (listVariables (Substitution_term b))"
proof (intro conjI impI)
  assume "unify cs h = Some (Some ss, h')"
  from unify_variables [OF this]
  show "\<forall>s \<in> set ss. Substitution_variable s \<in> constraintVariables cs
                   \<and> set (listVariables (Substitution_term s)) \<subseteq> constraintVariables cs"
    by (simp add: set_listVariables)
next
  show "set (listVariables (fst (Substitution_apply b t k)))
       \<subseteq> set (listVariables t) \<union> set (listVariables (Substitution_term b))"
    using vars_apply [of b t k] by (simp add: set_listVariables)
qed

theorem no_new_variables_witness:
  "unify [Constraint (Application 5 f_f [Var v_X, c_b]) (Application 6 f_f [Var v_Y, c_b])] 7
     = Some (Some [Substitution v_X (Var v_Y)], 7)
   \<and> Substitution_variable (Substitution v_X (Var v_Y))
       \<in> constraintVariables
           [Constraint (Application 5 f_f [Var v_X, c_b]) (Application 6 f_f [Var v_Y, c_b])]
   \<and> set (listVariables (Substitution_term (Substitution v_X (Var v_Y))))
       \<subseteq> constraintVariables
           [Constraint (Application 5 f_f [Var v_X, c_b]) (Application 6 f_f [Var v_Y, c_b])]
   \<and> set (listVariables (fst (Substitution_apply (Substitution v_X (Var v_Y))
                                 (Application 5 f_f [Var v_X, c_b]) 7)))
       \<subseteq> set (listVariables (Application 5 f_f [Var v_X, c_b]))
           \<union> set (listVariables (Substitution_term (Substitution v_X (Var v_Y))))"
proof -
  have u: "unify [Constraint (Application 5 f_f [Var v_X, c_b]) (Application 6 f_f [Var v_Y, c_b])] 7
     = Some (Some [Substitution v_X (Var v_Y)], 7)"
    by code_simp
  show ?thesis
    using u no_new_variables
      [of "[Constraint (Application 5 f_f [Var v_X, c_b]) (Application 6 f_f [Var v_Y, c_b])]"
          7 "[Substitution v_X (Var v_Y)]" 7 "Substitution v_X (Var v_Y)"
          "Application 5 f_f [Var v_X, c_b]" 7]
    by simp
qed

text \<open>
  C10. When control reaches the constant case of \<^verbatim>\<open>unify\<close> (the first constraint has
  failed the identity test, neither side is a variable and one side is a constant), the
  two sides are not the same object, so the branch that returns the empty list is never
  taken: the call fails, with nothing allocated. Two sides that are the same object are
  handled by the identity test, which goes on with the remaining constraints.
\<close>

theorem constant_case_fails:
  "(reachesConstantCase left right \<longrightarrow>
      left \<noteq> right \<and> unify (Constraint left right # rest) h = Some (None, h))
   \<and> unify (Constraint left left # rest) h = unify rest h"
  by (simp add: reachesConstantCase_def unify.simps)

theorem constant_case_fails_witness:
  "reachesConstantCase c_a c_b
   \<and> c_a \<noteq> c_b
   \<and> unify (Constraint c_a c_b # [Constraint (Var v_X) c_a]) 5 = Some (None, 5)
   \<and> unify (Constraint c_a c_a # [Constraint (Var v_X) c_a]) 5
       = unify [Constraint (Var v_X) c_a] 5"
proof -
  have r: "reachesConstantCase c_a c_b"
    by code_simp
  show ?thesis
    using r constant_case_fails [of c_a c_b "[Constraint (Var v_X) c_a]" 5]
      constant_case_fails [of c_a c_a "[Constraint (Var v_X) c_a]" 5]
    by simp
qed

section \<open>Answers\<close>



section \<open>Exhaustion\<close>

text \<open>
  C8. When the predicate of the first goal of a query is the predicate of no fact and of no
  rule of the store, the first pull returns, and it reports exhaustion. Exhaustion is
  stable: after a pull that reported exhaustion, any number of further pulls all return
  and report exhaustion.
\<close>

theorem absent_predicate_exhausts:
  "((\<forall>f \<in> set facts. Fact_predicate f \<noteq> Goal_predicate goal) \<longrightarrow>
    (\<forall>r \<in> set rules. Rule_predicate r \<noteq> Goal_predicate goal) \<longrightarrow>
      (\<exists>h'. Iterator_next (Space_query (Space facts rules) (goal # goals)) h
              = Some (IteratorResult True [],
                      Iterator (Space facts rules) [] (goalVariables [] (goal # goals)), h')))
   \<and> (Iterator_next it k = Some (IteratorResult True m, it', k') \<longrightarrow>
        (\<forall>n k''. map_option fst (pulls it' k'' n) = Some (replicate n (IteratorResult True []))))"
proof (intro conjI impI)
  assume f: "\<forall>f \<in> set facts. Fact_predicate f \<noteq> Goal_predicate goal"
    and r: "\<forall>r \<in> set rules. Rule_predicate r \<noteq> Goal_predicate goal"
  obtain h1 where a: "tryFacts goal (goal # goals) [] facts [] h = Some ([], h1)"
    using tryFacts_no_match [OF f] by blast
  obtain h2 where b: "tryRules goal (goal # goals) [] rules [] h1 = Some ([], h2)"
    using tryRules_no_match [OF r] by blast
  have "nextLoop (Space facts rules) (goalVariables [] (goal # goals)) [(goal # goals, [])] h
          = Some (IteratorResult True [], [], h2)"
    by (subst nextLoop.simps) (simp add: a b nextLoop_Nil)
  then show "\<exists>h'. Iterator_next (Space_query (Space facts rules) (goal # goals)) h
              = Some (IteratorResult True [],
                      Iterator (Space facts rules) [] (goalVariables [] (goal # goals)), h')"
    by (simp add: Space_query_def)
next
  assume a: "Iterator_next it k = Some (IteratorResult True m, it', k')"
  obtain space queue fv where it: "it = Iterator space queue fv" by (cases it)
  from a it obtain q' where n: "nextLoop space fv queue k = Some (IteratorResult True m, q', k')"
    and it': "it' = Iterator space q' fv"
    by auto
  have "q' = []" using nextLoop_done [OF n] by simp
  then show "\<forall>n k''. map_option fst (pulls it' k'' n) = Some (replicate n (IteratorResult True []))"
    using it' pulls_exhausted by simp
qed

text \<open>The witness: the addition store has no clause for \<^verbatim>\<open>p\<close>.\<close>

theorem absent_predicate_exhausts_witness:
  "Fact_predicate add_fact \<noteq> Goal_predicate (Goal p_p [Var v_X])
   \<and> Rule_predicate add_rule \<noteq> Goal_predicate (Goal p_p [Var v_X])
   \<and> (\<exists>h'. Iterator_next (Space_query add_space [Goal p_p [Var v_X]]) 13
              = Some (IteratorResult True [], Iterator add_space [] [v_X], h')
            \<and> map_option fst (pulls (Iterator add_space [] [v_X]) h' 3)
                = Some [IteratorResult True [], IteratorResult True [], IteratorResult True []])"
proof -
  have f: "\<forall>f \<in> set [add_fact]. Fact_predicate f \<noteq> Goal_predicate (Goal p_p [Var v_X])"
    by (simp add: add_fact_def p_add_def p_p_def)
  have r: "\<forall>r \<in> set [add_rule]. Rule_predicate r \<noteq> Goal_predicate (Goal p_p [Var v_X])"
    by (simp add: add_rule_def p_add_def p_p_def)
  have g: "goalVariables [] [Goal p_p [Var v_X]] = [v_X]"
    by (simp add: collectVariables_def Set_addAll_def Set_add_def)
  have e: "\<exists>h'. Iterator_next (Space_query (Space [add_fact] [add_rule]) [Goal p_p [Var v_X]]) 13
              = Some (IteratorResult True [],
                      Iterator (Space [add_fact] [add_rule]) []
                        (goalVariables [] [Goal p_p [Var v_X]]), h')"
    using f r absent_predicate_exhausts [of "[add_fact]" "Goal p_p [Var v_X]" "[add_rule]" "[]" 13]
    by blast
  obtain h' where n: "Iterator_next (Space_query add_space [Goal p_p [Var v_X]]) 13
              = Some (IteratorResult True [], Iterator add_space [] [v_X], h')"
    using e unfolding g add_space_def by blast
  have "\<forall>n k''. map_option fst (pulls (Iterator add_space [] [v_X]) k'' n)
          = Some (replicate n (IteratorResult True []))"
    using n absent_predicate_exhausts
      [of "[]" "Goal p_p [Var v_X]" "[]" "[]" 0
          "Space_query add_space [Goal p_p [Var v_X]]" 13 "[]" "Iterator add_space [] [v_X]" h']
    by blast
  then have "map_option fst (pulls (Iterator add_space [] [v_X]) h' 3)
          = Some (replicate 3 (IteratorResult True []))"
    by blast
  then have x: "map_option fst (pulls (Iterator add_space [] [v_X]) h' 3)
          = Some [IteratorResult True [], IteratorResult True [], IteratorResult True []]"
    by (simp only: numeral_3_eq_3 replicate.simps)
  have f': "Fact_predicate add_fact \<noteq> Goal_predicate (Goal p_p [Var v_X])"
    using f by simp
  have r': "Rule_predicate add_rule \<noteq> Goal_predicate (Goal p_p [Var v_X])"
    using r by simp
  show ?thesis
    using f' r' n x by blast
qed

section \<open>Expansion order\<close>



section \<open>Standardizing apart\<close>



end
